theory Spec2Isabelle
  imports Complex_Main "HOL-Library.Multiset"
begin

section \<open>Errors\<close>

text \<open>
  The exceptions the script can raise, as values. \<open>KeyError k\<close> is the failed
  subscript \<open>item[k]\<close>; \<open>ValueError\<close> is raised by \<open>datetime.strptime\<close>;
  \<open>OverflowError\<close> by \<open>datetime + timedelta\<close> past the last representable day;
  \<open>IndexError\<close> by \<open>dates[0]\<close> on an empty list; \<open>RequestException\<close> stands for
  every transport failure of the \<open>requests\<close> library (connection, non-2xx status);
  \<open>ApiError\<close> is the plain \<open>Exception\<close> raised for an error payload.
\<close>

datatype py_error =
    KeyError string
  | ValueError
  | OverflowError
  | IndexError
  | RequestException
  | ApiError

section \<open>Data model\<close>

text \<open>
  One element of the list returned by the activity endpoint. It is a JSON object, read
  with \<open>item[k]\<close> (raises when the key is absent) and \<open>item.get(k, default)\<close>; every
  key is therefore an optional field, \<open>None\<close> meaning that the key is absent.
  JSON numbers that carry money are floats, each modelled by the real number it
  denotes; counts are integers.
\<close>

record activity_record =
  model_permaslug :: "string option"
  model :: "string option"
  usage :: "real option"
  requests :: "int option"
  prompt_tokens :: "int option"
  completion_tokens :: "int option"
  reasoning_tokens :: "int option"
  byok_usage_inference :: "real option"
  provider_name :: "string option"

text \<open>The dictionary built for each item inside \<open>transform_activity_data\<close>.\<close>

record model_breakdown =
  name :: string
  cost :: real
  m_requests :: int
  m_prompt_tokens :: int
  m_completion_tokens :: int
  m_reasoning_tokens :: int
  byok_usage :: real
  provider :: string

text \<open>The dictionary returned by \<open>transform_activity_data\<close>.\<close>

record daily_summary =
  date :: string
  total_cost :: real
  total_requests :: int
  total_prompt_tokens :: int
  total_completion_tokens :: int
  total_reasoning_tokens :: int
  model_count :: nat
  models :: "model_breakdown list"

section \<open>The aggregator: \<open>transform_activity_data\<close>\<close>

text \<open>\<open>item[k]\<close>: the value, or \<open>KeyError\<close> when the key is absent.\<close>

definition subscript :: "string \<Rightarrow> 'a option \<Rightarrow> py_error + 'a" where
  "subscript k field = (case field of None \<Rightarrow> Inl (KeyError k) | Some v \<Rightarrow> Inr v)"

text \<open>\<open>item.get(k, default)\<close>.\<close>

definition get_default :: "'a option \<Rightarrow> 'a \<Rightarrow> 'a" where
  "get_default field dflt = (case field of None \<Rightarrow> dflt | Some v \<Rightarrow> v)"

text \<open>
  Costs are Python floats, that is IEEE 754 doubles. A double is modelled by the real
  number it denotes, and the one operation the script applies to costs, \<open>+\<close>, by the
  exact sum rounded to the nearest double, ties to the even significand:
  \<open>round_double x\<close> keeps 53 significant bits of \<open>x\<close>. (Sums of doubles are exact
  below the normal range, so no separate case is needed there; results beyond the
  largest double, about 1.8e308, are outside the model, as is NaN. A cost that JSON
  writes as an integer is added exactly by Python; below \<open>2^53\<close> it and its sums
  are doubles, and rounding leaves them alone.)
\<close>

definition round_half_even :: "real \<Rightarrow> int" where
  "round_half_even m =
     (let f = \<lfloor>m\<rfloor>; r = m - of_int f
      in if r < 1 / 2 then f else if 1 / 2 < r then f + 1 else if even f then f else f + 1)"

definition round_double :: "real \<Rightarrow> real" where
  "round_double x =
     (if x = 0 then 0
      else (let q = \<lfloor>log 2 \<bar>x\<bar>\<rfloor> - 52
            in of_int (round_half_even (x / 2 powi q)) * 2 powi q))"

definition float_add :: "real \<Rightarrow> real \<Rightarrow> real" where
  "float_add a b = round_double (a + b)"

text \<open>
  \<open>sum(f(item) for item in raw_data)\<close>: Python's \<open>sum\<close> starts from 0 and adds the
  elements from left to right with the \<open>+\<close> of their type, here \<open>add\<close>: exact on
  integers, \<open>float_add\<close> on floats. The first element whose expression raises ends
  it. (From version 3.12 CPython's \<open>sum\<close> also carries a correction term when it adds
  floats; the model is the plain left-to-right sum of the earlier versions.)
\<close>

fun py_sum :: "('a \<Rightarrow> 'a \<Rightarrow> 'a) \<Rightarrow> ('i \<Rightarrow> py_error + 'a) \<Rightarrow> 'a \<Rightarrow> 'i list \<Rightarrow> py_error + 'a" where
  "py_sum add f acc [] = Inr acc"
| "py_sum add f acc (x # xs) =
     (case f x of Inl e \<Rightarrow> Inl e | Inr v \<Rightarrow> py_sum add f (add acc v) xs)"

text \<open>The same sum over a list of floats that are already at hand.\<close>

definition float_sum :: "real list \<Rightarrow> real" where
  "float_sum xs = foldl float_add 0 xs"

text \<open>The body of the \<open>for item in raw_data\<close> loop: the dictionary for one item.\<close>

definition to_model :: "activity_record \<Rightarrow> py_error + model_breakdown" where
  "to_model item =
     (case subscript ''usage'' (usage item) of Inl e \<Rightarrow> Inl e | Inr c \<Rightarrow>
     (case subscript ''requests'' (requests item) of Inl e \<Rightarrow> Inl e | Inr r \<Rightarrow>
     (case subscript ''prompt_tokens'' (prompt_tokens item) of Inl e \<Rightarrow> Inl e | Inr p \<Rightarrow>
     (case subscript ''completion_tokens'' (completion_tokens item) of Inl e \<Rightarrow> Inl e | Inr ct \<Rightarrow>
     (case subscript ''provider_name'' (provider_name item) of Inl e \<Rightarrow> Inl e | Inr pv \<Rightarrow>
      Inr \<lparr> name = get_default (model_permaslug item) (get_default (model item) ''''),
            cost = c,
            m_requests = r,
            m_prompt_tokens = p,
            m_completion_tokens = ct,
            m_reasoning_tokens = get_default (reasoning_tokens item) 0,
            byok_usage = get_default (byok_usage_inference item) 0,
            provider = pv \<rparr>)))))"

text \<open>The loop itself: \<open>models.append(model)\<close> for each item, in order.\<close>

fun build_models :: "activity_record list \<Rightarrow> model_breakdown list \<Rightarrow> py_error + model_breakdown list" where
  "build_models [] ms = Inr ms"
| "build_models (item # rest) ms =
     (case to_model item of Inl e \<Rightarrow> Inl e | Inr m \<Rightarrow> build_models rest (ms @ [m]))"

text \<open>
  \<open>models.sort(key=lambda x: x["cost"], reverse=True)\<close>. Python's \<open>list.sort\<close> is
  stable, and with \<open>reverse=True\<close> it orders by decreasing key while elements with
  equal keys keep their original order. The model is the insertion sort with that
  behaviour: elements are inserted from the right, each in front of the first
  element whose key is not larger.
\<close>

fun insert_desc :: "('a \<Rightarrow> real) \<Rightarrow> 'a \<Rightarrow> 'a list \<Rightarrow> 'a list" where
  "insert_desc key x [] = [x]"
| "insert_desc key x (y # ys) =
     (if key y \<le> key x then x # y # ys else y # insert_desc key x ys)"

definition sort_reverse :: "('a \<Rightarrow> real) \<Rightarrow> 'a list \<Rightarrow> 'a list" where
  "sort_reverse key xs = foldr (insert_desc key) xs []"

definition transform_activity_data :: "activity_record list \<Rightarrow> string \<Rightarrow> py_error + daily_summary" where
  "transform_activity_data raw_data d =
     (if raw_data = [] then
        Inr \<lparr> date = d, total_cost = 0, total_requests = 0, total_prompt_tokens = 0,
              total_completion_tokens = 0, total_reasoning_tokens = 0,
              model_count = 0, models = [] \<rparr>
      else
       (case py_sum float_add (\<lambda>item. subscript ''usage'' (usage item)) 0 raw_data of Inl e \<Rightarrow> Inl e | Inr tc \<Rightarrow>
       (case py_sum (+) (\<lambda>item. subscript ''requests'' (requests item)) 0 raw_data of Inl e \<Rightarrow> Inl e | Inr tr \<Rightarrow>
       (case py_sum (+) (\<lambda>item. subscript ''prompt_tokens'' (prompt_tokens item)) 0 raw_data of Inl e \<Rightarrow> Inl e | Inr tp \<Rightarrow>
       (case py_sum (+) (\<lambda>item. subscript ''completion_tokens'' (completion_tokens item)) 0 raw_data of Inl e \<Rightarrow> Inl e | Inr tct \<Rightarrow>
       (case py_sum (+) (\<lambda>item. Inr (get_default (reasoning_tokens item) 0)) 0 raw_data of Inl e \<Rightarrow> Inl e | Inr trt \<Rightarrow>
       (case build_models raw_data [] of Inl e \<Rightarrow> Inl e | Inr ms \<Rightarrow>
        (let sorted_models = sort_reverse cost ms in
         Inr \<lparr> date = d, total_cost = tc, total_requests = tr, total_prompt_tokens = tp,
               total_completion_tokens = tct, total_reasoning_tokens = trt,
               model_count = length sorted_models, models = sorted_models \<rparr>))))))))"

section \<open>The event sender: \<open>send_to_posthog\<close>\<close>

text \<open>
  The two HTTP services are the environment. \<open>http_get env key d\<close> is the outcome of
  \<open>requests.get(url, headers, params)\<close>, \<open>raise_for_status()\<close> and \<open>json()\<close> for the
  activity endpoint with bearer key \<open>key\<close> and query date \<open>d\<close>; \<open>http_post env url p\<close>
  is the same for \<open>requests.post(url, json=p)\<close>. A transport failure is
  \<open>Inl RequestException\<close>; otherwise the decoded JSON body is returned, of which the
  script reads the keys \<open>error\<close> and \<open>data\<close>, respectively \<open>status\<close>.
  \<open>clock_yesterday\<close> is what \<open>get_yesterday()\<close> returns when the script runs.
\<close>

record get_response =
  resp_error :: "string option"
  resp_data :: "activity_record list option"

record post_response =
  status :: "string option"

record payload =
  api_key :: string
  event :: string
  distinct_id :: string
  properties :: daily_summary
  timestamp :: string

record http_env =
  http_get :: "string \<Rightarrow> string \<Rightarrow> py_error + get_response"
  http_post :: "string \<Rightarrow> payload \<Rightarrow> py_error + post_response"
  clock_yesterday :: string

definition fetch_openrouter_activity :: "http_env \<Rightarrow> string \<Rightarrow> string \<Rightarrow> py_error + activity_record list" where
  "fetch_openrouter_activity env key d =
     (case http_get env key d of
        Inl e \<Rightarrow> Inl e
      | Inr data \<Rightarrow>
          (case resp_error data of
             Some err \<Rightarrow> Inl ApiError
           | None \<Rightarrow> Inr (get_default (resp_data data) [])))"

text \<open>The dictionary \<open>payload\<close> that \<open>send_to_posthog\<close> builds before it posts.\<close>

definition posthog_payload :: "string \<Rightarrow> daily_summary \<Rightarrow> string \<Rightarrow> payload" where
  "posthog_payload key event_data d =
     \<lparr> api_key = key,
       event = ''openrouter_daily_activity'',
       distinct_id = ''enchanted_github_actions'',
       properties = event_data,
       timestamp = d @ ''T23:30:00Z'' \<rparr>"

definition send_to_posthog :: "http_env \<Rightarrow> string \<Rightarrow> string \<Rightarrow> daily_summary \<Rightarrow> string \<Rightarrow> py_error + unit" where
  "send_to_posthog env key host event_data d =
     (case http_post env (host @ ''/i/v0/e/'') (posthog_payload key event_data d) of
        Inl e \<Rightarrow> Inl e
      | Inr result \<Rightarrow> (if status result \<noteq> Some ''Ok'' then Inl ApiError else Inr ()))"

section \<open>The date range planner: \<open>parse_date_range\<close>\<close>

text \<open>
  A \<open>datetime\<close> whose time of day is midnight, as \<open>strptime\<close> with the format
  \<open>%Y-%m-%d\<close> builds it. The library only ever constructs valid dates: a year from 1
  to 9999, a month from 1 to 12 and a day that exists in that month.
\<close>

record datetime =
  year :: nat
  month :: nat
  day :: nat

definition is_leap :: "nat \<Rightarrow> bool" where
  "is_leap y = (if y mod 400 = 0 then True else if y mod 100 = 0 then False else y mod 4 = 0)"

definition days_in_month :: "nat \<Rightarrow> nat \<Rightarrow> nat" where
  "days_in_month y m =
     (if m = 2 then (if is_leap y then 29 else 28)
      else if m = 4 \<or> m = 6 \<or> m = 9 \<or> m = 11 then 30
      else 31)"

definition valid_date :: "datetime \<Rightarrow> bool" where
  "valid_date dt =
     (1 \<le> year dt \<and> year dt \<le> 9999 \<and> 1 \<le> month dt \<and> month dt \<le> 12 \<and>
      1 \<le> day dt \<and> day dt \<le> days_in_month (year dt) (month dt))"

text \<open>Comparison of two such values, \<open>current <= end\<close> and \<open>current < end\<close>.\<close>

definition datetime_le :: "datetime \<Rightarrow> datetime \<Rightarrow> bool" where
  "datetime_le a b =
     (year a < year b \<or> (year a = year b \<and>
        (month a < month b \<or> (month a = month b \<and> day a \<le> day b))))"

definition datetime_less :: "datetime \<Rightarrow> datetime \<Rightarrow> bool" where
  "datetime_less a b =
     (year a < year b \<or> (year a = year b \<and>
        (month a < month b \<or> (month a = month b \<and> day a < day b))))"

text \<open>
  \<open>datetime.strptime(s, '%Y-%m-%d')\<close>. The library compiles the format to the regular
  expression \<open>(\d\d\d\d)-(1[0-2]|0[1-9]|[1-9])-(3[01]|[12]\d|0[1-9]|[1-9]| [1-9])\<close>,
  matches it at the start of the string and raises \<open>ValueError\<close> when it does not
  match, when characters remain after the match, or when the three numbers are not a
  date. Each matcher below takes the first alternative that applies and returns the
  number read and the rest of the string. Only ASCII digits are modelled.
\<close>

definition is_digit :: "char \<Rightarrow> bool" where
  "is_digit c = (48 \<le> (of_char c :: nat) \<and> (of_char c :: nat) \<le> 57)"

definition digit_val :: "char \<Rightarrow> nat" where
  "digit_val c = of_char c - 48"

fun match_year :: "string \<Rightarrow> (nat \<times> string) option" where
  "match_year (a # b # c # d # rest) =
     (if is_digit a \<and> is_digit b \<and> is_digit c \<and> is_digit d
      then Some (1000 * digit_val a + 100 * digit_val b + 10 * digit_val c + digit_val d, rest)
      else None)"
| "match_year s = None"

fun match_dash :: "string \<Rightarrow> string option" where
  "match_dash (c # rest) = (if c = CHR ''-'' then Some rest else None)"
| "match_dash [] = None"

fun match_month :: "string \<Rightarrow> (nat \<times> string) option" where
  "match_month (a # b # rest) =
     (if a = CHR ''1'' \<and> is_digit b \<and> digit_val b \<le> 2 then Some (10 + digit_val b, rest)
      else if a = CHR ''0'' \<and> is_digit b \<and> 1 \<le> digit_val b then Some (digit_val b, rest)
      else if is_digit a \<and> 1 \<le> digit_val a then Some (digit_val a, b # rest)
      else None)"
| "match_month [a] = (if is_digit a \<and> 1 \<le> digit_val a then Some (digit_val a, []) else None)"
| "match_month [] = None"

fun match_day :: "string \<Rightarrow> (nat \<times> string) option" where
  "match_day (a # b # rest) =
     (if a = CHR ''3'' \<and> is_digit b \<and> digit_val b \<le> 1 then Some (30 + digit_val b, rest)
      else if (a = CHR ''1'' \<or> a = CHR ''2'') \<and> is_digit b then Some (10 * digit_val a + digit_val b, rest)
      else if a = CHR ''0'' \<and> is_digit b \<and> 1 \<le> digit_val b then Some (digit_val b, rest)
      else if is_digit a \<and> 1 \<le> digit_val a then Some (digit_val a, b # rest)
      else if a = CHR '' '' \<and> is_digit b \<and> 1 \<le> digit_val b then Some (digit_val b, rest)
      else None)"
| "match_day [a] = (if is_digit a \<and> 1 \<le> digit_val a then Some (digit_val a, []) else None)"
| "match_day [] = None"

definition strptime :: "string \<Rightarrow> py_error + datetime" where
  "strptime s =
     (case match_year s of None \<Rightarrow> Inl ValueError | Some (y, r1) \<Rightarrow>
     (case match_dash r1 of None \<Rightarrow> Inl ValueError | Some r2 \<Rightarrow>
     (case match_month r2 of None \<Rightarrow> Inl ValueError | Some (m, r3) \<Rightarrow>
     (case match_dash r3 of None \<Rightarrow> Inl ValueError | Some r4 \<Rightarrow>
     (case match_day r4 of None \<Rightarrow> Inl ValueError | Some (d, r5) \<Rightarrow>
       (if r5 \<noteq> [] then Inl ValueError
        else if valid_date \<lparr> year = y, month = m, day = d \<rparr>
        then Inr \<lparr> year = y, month = m, day = d \<rparr>
        else Inl ValueError))))))"

text \<open>
  \<open>dt.strftime('%Y-%m-%d')\<close>: the year on four digits, the month and the day on two,
  padded with zeros. (For years below 1000 some C libraries print \<open>%Y\<close> without
  padding; the model follows the padded form, which is the one \<open>strptime\<close> reads.)
\<close>

definition digit_char :: "nat \<Rightarrow> char" where
  "digit_char n = ''0123456789'' ! (n mod 10)"

definition strftime :: "datetime \<Rightarrow> string" where
  "strftime dt =
     [digit_char (year dt div 1000), digit_char (year dt div 100), digit_char (year dt div 10),
      digit_char (year dt), CHR ''-'',
      digit_char (month dt div 10), digit_char (month dt), CHR ''-'',
      digit_char (day dt div 10), digit_char (day dt)]"

text \<open>
  \<open>current + timedelta(days=1)\<close>: the following calendar day. The library raises
  \<open>OverflowError\<close> when the result would lie after 9999-12-31.
\<close>

definition add_one_day :: "datetime \<Rightarrow> py_error + datetime" where
  "add_one_day dt =
     (if day dt < days_in_month (year dt) (month dt) then Inr (dt\<lparr>day := day dt + 1\<rparr>)
      else if month dt < 12 then Inr (dt\<lparr>month := month dt + 1, day := 1\<rparr>)
      else if year dt < 9999 then Inr \<lparr> year = year dt + 1, month = 1, day = 1 \<rparr>
      else Inl OverflowError)"

text \<open>The \<open>while current <= end\<close> loop; \<open>dates\<close> is the list built so far.\<close>

function date_loop :: "datetime \<Rightarrow> datetime \<Rightarrow> string list \<Rightarrow> py_error + string list" where
  "date_loop current end_dt dates =
     (if datetime_le current end_dt then
        (case add_one_day current of
           Inl e \<Rightarrow> Inl e
         | Inr next_dt \<Rightarrow> date_loop next_dt end_dt (dates @ [strftime current]))
      else Inr dates)"
  by pat_completeness auto
termination
proof (relation "measures [\<lambda>(c, e, ds). (year e + 1) - year c,
                          \<lambda>(c, e, ds). 12 - month c,
                          \<lambda>(c, e, ds). 31 - day c]", goal_cases)
  case 1
  show ?case by simp
next
  case (2 current end_dt dates next_dt)
  have dim: "days_in_month (year current) (month current) \<le> 31"
    by (simp add: days_in_month_def)
  from 2 show ?case
    using dim by (auto simp: add_one_day_def datetime_le_def split: if_splits)
qed

declare date_loop.simps [simp del]

text \<open>
  \<open>if end_date:\<close> is false for \<open>None\<close> (the argument was not given) and for the
  empty string.
\<close>

definition parse_date_range :: "string \<Rightarrow> string option \<Rightarrow> py_error + string list" where
  "parse_date_range start_date end_date =
     (case strptime start_date of
        Inl e \<Rightarrow> Inl e
      | Inr start \<Rightarrow>
          (case end_date of
             None \<Rightarrow> Inr [strftime start]
           | Some e_str \<Rightarrow>
               (if e_str = [] then Inr [strftime start]
                else
                  (case strptime e_str of
                     Inl e \<Rightarrow> Inl e
                   | Inr end_dt \<Rightarrow> date_loop start end_dt []))))"

section \<open>The driver: \<open>sync_date\<close> and \<open>main\<close>\<close>

text \<open>
  What the script prints, one constructor for each \<open>print\<close> call. The console is
  part of the state: each function takes the lines printed so far and returns them
  extended.
\<close>

datatype console =
    Fetching string
  | Found nat
  | Processed real nat
  | Sent
  | NetworkErrorFor string
  | ErrorFor string py_error
  | Skipping string
  | MissingVariables
  | SyncingRange string string nat
  | SyncingDate string
  | SyncingYesterday string
  | Summary nat nat

text \<open>
  The two \<open>except\<close> clauses of \<open>sync_date\<close>: each prints its line and raises the
  exception again.
\<close>

definition report :: "string \<Rightarrow> py_error \<Rightarrow> console" where
  "report d e = (if e = RequestException then NetworkErrorFor d else ErrorFor d e)"

definition sync_date ::
  "http_env \<Rightarrow> string \<Rightarrow> string \<Rightarrow> string \<Rightarrow> string \<Rightarrow> console list \<Rightarrow> (py_error + unit) \<times> console list" where
  "sync_date env openrouter_key posthog_key posthog_host d out =
     (let out1 = out @ [Fetching d] in
      (case fetch_openrouter_activity env openrouter_key d of
         Inl e \<Rightarrow> (Inl e, out1 @ [report d e])
       | Inr raw_data \<Rightarrow>
           (let out2 = out1 @ [Found (length raw_data)] in
            (case transform_activity_data raw_data d of
               Inl e \<Rightarrow> (Inl e, out2 @ [report d e])
             | Inr event_data \<Rightarrow>
                 (let out3 = out2 @ [Processed (total_cost event_data) (model_count event_data)] in
                  (case send_to_posthog env posthog_key posthog_host event_data d of
                     Inl e \<Rightarrow> (Inl e, out3 @ [report d e])
                   | Inr u \<Rightarrow> (Inr (), out3 @ [Sent])))))))"

text \<open>
  The \<open>for date in dates\<close> loop of \<open>main\<close> with its \<open>try\<close>/\<open>except Exception\<close>:
  the state is \<open>success_count\<close> and the console.
\<close>

fun sync_dates ::
  "http_env \<Rightarrow> string \<Rightarrow> string \<Rightarrow> string \<Rightarrow> string list \<Rightarrow> nat \<Rightarrow> console list \<Rightarrow> nat \<times> console list" where
  "sync_dates env ok pk ph [] success_count out = (success_count, out)"
| "sync_dates env ok pk ph (d # rest) success_count out =
     (case sync_date env ok pk ph d out of
        (Inr u, out') \<Rightarrow> sync_dates env ok pk ph rest (success_count + 1) out'
      | (Inl e, out') \<Rightarrow> sync_dates env ok pk ph rest success_count (out' @ [Skipping d]))"

text \<open>
  The command line after \<open>argparse\<close> and the three environment variables. How the
  process ends: \<open>Exit n\<close> for \<open>sys.exit(n)\<close> or a normal return (\<open>Exit 0\<close>),
  \<open>Uncaught e\<close> for an exception that leaves \<open>main\<close>.
\<close>

record args =
  arg_date :: "string option"
  arg_start_date :: "string option"
  arg_end_date :: "string option"

record os_environ =
  OPENROUTER_API_KEY :: "string option"
  POSTHOG_API_KEY :: "string option"
  POSTHOG_HOST :: "string option"

datatype outcome = Exit nat | Uncaught py_error

definition truthy :: "string option \<Rightarrow> bool" where
  "truthy s = (case s of None \<Rightarrow> False | Some v \<Rightarrow> v \<noteq> [])"

text \<open>
  The three branches that choose \<open>dates\<close> and print the header. The header of the
  range branch reads \<open>dates[0]\<close> and \<open>dates[-1]\<close>, which raise \<open>IndexError\<close> on an
  empty list.
\<close>

definition plan_dates :: "http_env \<Rightarrow> args \<Rightarrow> py_error + (string list \<times> console)" where
  "plan_dates env a =
     (if truthy (arg_start_date a) then
        (case parse_date_range (get_default (arg_start_date a) []) (arg_end_date a) of
           Inl e \<Rightarrow> Inl e
         | Inr dates \<Rightarrow>
             (case dates of
                [] \<Rightarrow> Inl IndexError
              | d0 # ds \<Rightarrow> Inr (dates, SyncingRange d0 (last dates) (length dates))))
      else if truthy (arg_date a) then
        Inr ([get_default (arg_date a) []], SyncingDate (get_default (arg_date a) []))
      else Inr ([clock_yesterday env], SyncingYesterday (clock_yesterday env)))"

definition main :: "http_env \<Rightarrow> os_environ \<Rightarrow> args \<Rightarrow> outcome \<times> console list" where
  "main env vars a =
     (if \<not> (truthy (OPENROUTER_API_KEY vars) \<and> truthy (POSTHOG_API_KEY vars) \<and> truthy (POSTHOG_HOST vars))
      then (Exit 1, [MissingVariables])
      else
        (case plan_dates env a of
           Inl e \<Rightarrow> (Uncaught e, [])
         | Inr (dates, header) \<Rightarrow>
             (case sync_dates env (get_default (OPENROUTER_API_KEY vars) [])
                     (get_default (POSTHOG_API_KEY vars) [])
                     (get_default (POSTHOG_HOST vars) []) dates 0 [header] of
                (success_count, out) \<Rightarrow> (Exit 0, out @ [Summary success_count (length dates)]))))"

text \<open>
  Two observations used to state what the driver does. A date completes when its three
  steps succeed: the fetch returns records, the aggregator returns a summary for
  them, and the sender returns normally for that summary. The dates attempted are
  read off the console: \<open>sync_date\<close> prints its \<open>Fetching\<close> line first.
\<close>

definition all_steps_succeed :: "http_env \<Rightarrow> string \<Rightarrow> string \<Rightarrow> string \<Rightarrow> string \<Rightarrow> bool" where
  "all_steps_succeed env openrouter_key posthog_key posthog_host d =
     (case fetch_openrouter_activity env openrouter_key d of
        Inl e \<Rightarrow> False
      | Inr raw_data \<Rightarrow>
          (case transform_activity_data raw_data d of
             Inl e \<Rightarrow> False
           | Inr event_data \<Rightarrow>
               (case send_to_posthog env posthog_key posthog_host event_data d of
                  Inl e \<Rightarrow> False
                | Inr u \<Rightarrow> True)))"

fun attempted_dates :: "console list \<Rightarrow> string list" where
  "attempted_dates [] = []"
| "attempted_dates (Fetching d # ls) = d # attempted_dates ls"
| "attempted_dates (l # ls) = attempted_dates ls"

text \<open>
  The simulation of section 8 of the specification: the activity endpoint returns one
  record for every date, and the ingestion endpoint answers the event of 2025-08-21
  with a status other than \<open>Ok\<close>.
\<close>

definition simulated_env :: http_env where
  "simulated_env =
     \<lparr> http_get = (\<lambda>key d. Inr \<lparr> resp_error = None, resp_data = Some
         [\<lparr> model_permaslug = None, model = Some ''gpt-x'', usage = Some 3.5,
            requests = Some 10, prompt_tokens = Some 100, completion_tokens = Some 50,
            reasoning_tokens = None, byok_usage_inference = None,
            provider_name = Some ''acme'' \<rparr>] \<rparr>),
       http_post = (\<lambda>url p. if timestamp p = ''2025-08-21T23:30:00Z''
                              then Inr \<lparr> status = Some ''Error'' \<rparr>
                              else Inr \<lparr> status = Some ''Ok'' \<rparr>),
       clock_yesterday = ''2025-08-24'' \<rparr>"

section \<open>Properties of the aggregator\<close>

subsection \<open>Rounding to a double\<close>

lemma round_half_even_of_int: "round_half_even (of_int n) = n"
  by (simp add: round_half_even_def)

lemma two_powr_int: "(2::real) powr real_of_int k = 2 powi k"
  by (simp add: powr_real_of_int')

lemma floor_log2_bounds:
  assumes "0 < x"
  shows "2 powi \<lfloor>log 2 x\<rfloor> \<le> x" and "x < 2 powi (\<lfloor>log 2 x\<rfloor> + 1)"
proof -
  have "2 powr real_of_int \<lfloor>log 2 x\<rfloor> \<le> x \<and> x < 2 powr real_of_int (\<lfloor>log 2 x\<rfloor> + 1)"
    using floor_log_eq_powr_iff[of x 2 "\<lfloor>log 2 x\<rfloor>"] assms by simp
  then show "2 powi \<lfloor>log 2 x\<rfloor> \<le> x" and "x < 2 powi (\<lfloor>log 2 x\<rfloor> + 1)"
    using two_powr_int[of "\<lfloor>log 2 x\<rfloor>"] two_powr_int[of "\<lfloor>log 2 x\<rfloor> + 1"] by simp_all
qed



text \<open>A number with at most 53 significant bits is a double: rounding leaves it alone.\<close>

lemma round_double_exact:
  assumes x: "x = of_int k * 2 powi q0" and k: "\<bar>k\<bar> < 2 ^ 53"
  shows "round_double x = x"
proof (cases "k = 0")
  case True
  with x show ?thesis by (simp add: round_double_def)
next
  case False
  define e where "e = \<lfloor>log 2 \<bar>x\<bar>\<rfloor>"
  have ax: "\<bar>x\<bar> = of_int \<bar>k\<bar> * 2 powi q0" using x by (simp add: abs_mult)
  have pos: "0 < \<bar>x\<bar>" using False x by simp
  have lo: "2 powi e \<le> \<bar>x\<bar>" unfolding e_def by (rule floor_log2_bounds(1)[OF pos])
  have "real_of_int \<bar>k\<bar> < 2 ^ 53" using k by (metis of_int_less_numeral_power_cancel_iff)
  then have "\<bar>x\<bar> < 2 ^ 53 * 2 powi q0" unfolding ax by simp
  also have "\<dots> = 2 powi (53 + q0)" by (simp add: power_int_add)
  finally have "2 powi e < (2::real) powi (53 + q0)" using lo by linarith
  then have "\<not> 53 + q0 \<le> e"
    using power_int_increasing[of "53 + q0" e "2::real"] by auto
  then have le: "e - 52 \<le> q0" by simp
  define d where "d = nat (q0 - (e - 52))"
  have q0: "q0 = (e - 52) + int d" using le by (simp add: d_def)
  have m: "x / 2 powi (e - 52) = of_int (k * 2 ^ d)"
    unfolding x by (subst q0) (simp add: power_int_add)
  have "round_double x = of_int (round_half_even (x / 2 powi (e - 52))) * 2 powi (e - 52)"
    using pos by (simp add: round_double_def e_def Let_def)
  also have "\<dots> = of_int (k * 2 ^ d) * 2 powi (e - 52)"
    by (simp only: m round_half_even_of_int)
  also have "\<dots> = x"
    unfolding x by (subst q0) (simp add: power_int_add)
  finally show ?thesis .
qed

lemma round_double_numeral:
  "numeral n < (2::int) ^ 53 \<Longrightarrow> round_double (numeral n) = numeral n"
  using round_double_exact[of "numeral n" "numeral n" 0] by simp

lemma round_double_half_numeral:
  "numeral n < (2::int) ^ 53 \<Longrightarrow> round_double (numeral n / 2) = numeral n / 2"
  using round_double_exact[of "numeral n / 2" "numeral n" "-1"] by simp


subsection \<open>The sums and the sort\<close>

lemma py_sum_all2:
  "list_all2 (\<lambda>i m. f i = Inr (g m)) xs ns \<Longrightarrow>
   py_sum add f acc xs = Inr (foldl add acc (map g ns))"
  by (induction xs ns arbitrary: acc rule: list_all2_induct) simp_all

lemma foldl_plus_sum_list:
  fixes a :: "'a::monoid_add"
  shows "foldl (+) a xs = a + sum_list xs"
  by (induction xs arbitrary: a) (simp_all add: add.assoc)

subsection \<open>Building the summary\<close>

lemma build_models_Inr:
  "build_models xs acc = Inr ms \<Longrightarrow>
   \<exists>ns. list_all2 (\<lambda>i m. to_model i = Inr m) xs ns \<and> ms = acc @ ns"
proof (induction xs arbitrary: acc)
  case Nil
  then show ?case by simp
next
  case (Cons x xs)
  then obtain m where m: "to_model x = Inr m" and r: "build_models xs (acc @ [m]) = Inr ms"
    by (auto split: sum.splits)
  from Cons.IH[OF r] obtain ns
    where "list_all2 (\<lambda>i m. to_model i = Inr m) xs ns" "ms = (acc @ [m]) @ ns"
    by blast
  with m show ?case
    by (intro exI[of _ "m # ns"]) simp
qed

lemma build_models_all2:
  "list_all2 (\<lambda>i m. to_model i = Inr m) xs ns \<Longrightarrow> build_models xs acc = Inr (acc @ ns)"
  by (induction xs ns arbitrary: acc rule: list_all2_induct) simp_all

lemma to_model_fields:
  assumes "to_model item = Inr m"
  shows "usage item = Some (cost m)"
    and "requests item = Some (m_requests m)"
    and "prompt_tokens item = Some (m_prompt_tokens m)"
    and "completion_tokens item = Some (m_completion_tokens m)"
    and "provider_name item = Some (provider m)"
    and "m_reasoning_tokens m = get_default (reasoning_tokens item) 0"
    and "byok_usage m = get_default (byok_usage_inference item) 0"
    and "name m = get_default (model_permaslug item) (get_default (model item) '''')"
  using assms
  by (auto simp: to_model_def subscript_def split: option.splits)

lemma to_model_total:
  assumes "usage item = Some c" "requests item = Some r" "prompt_tokens item = Some p"
    "completion_tokens item = Some ct" "provider_name item = Some pv"
  shows "\<exists>m. to_model item = Inr m"
  using assms by (simp add: to_model_def subscript_def)

lemma mset_insert_desc: "mset (insert_desc key x ys) = add_mset x (mset ys)"
  by (induction ys) auto

lemma mset_sort_reverse: "mset (sort_reverse key xs) = mset xs"
  unfolding sort_reverse_def by (induction xs) (auto simp: mset_insert_desc)

lemma length_sort_reverse: "length (sort_reverse key xs) = length xs"
  using mset_sort_reverse[of key xs] by (metis size_mset)


lemma set_insert_desc: "set (insert_desc key x ys) = insert x (set ys)"
  by (induction ys) auto

lemma sorted_insert_desc:
  "sorted_wrt (\<lambda>a b. key b \<le> key a) ys \<Longrightarrow>
   sorted_wrt (\<lambda>a b. key b \<le> key a) (insert_desc key x ys)"
  by (induction ys) (auto simp: set_insert_desc)

lemma sorted_sort_reverse: "sorted_wrt (\<lambda>a b. key b \<le> key a) (sort_reverse key xs)"
  unfolding sort_reverse_def by (induction xs) (auto simp: sorted_insert_desc)

lemma filter_insert_desc:
  "sorted_wrt (\<lambda>a b. key b \<le> key a) ys \<Longrightarrow>
   filter (\<lambda>m. key m = k) (insert_desc key x ys) =
     (if key x = k then x # filter (\<lambda>m. key m = k) ys else filter (\<lambda>m. key m = k) ys)"
  by (induction ys) (auto simp: filter_empty_conv)

lemma stable_sort_reverse:
  "filter (\<lambda>m. key m = k) (sort_reverse key xs) = filter (\<lambda>m. key m = k) xs"
proof (induction xs)
  case Nil
  then show ?case by (simp add: sort_reverse_def)
next
  case (Cons x xs)
  have s: "sorted_wrt (\<lambda>a b. key b \<le> key a) (foldr (insert_desc key) xs [])"
    using sorted_sort_reverse[of key xs] by (simp add: sort_reverse_def)
  show ?case
    using Cons filter_insert_desc[OF s, of k x] by (simp add: sort_reverse_def)
qed

text \<open>
  What the aggregator returns on a non-empty list: it succeeds exactly when every item
  has its required keys, and then the summary is built from the per-item dictionaries.
\<close>

lemma transform_of_models:
  assumes ne: "raw \<noteq> []" and ms: "list_all2 (\<lambda>i m. to_model i = Inr m) raw ms"
  shows "transform_activity_data raw d =
     Inr \<lparr> date = d, total_cost = float_sum (map cost ms),
           total_requests = sum_list (map m_requests ms),
           total_prompt_tokens = sum_list (map m_prompt_tokens ms),
           total_completion_tokens = sum_list (map m_completion_tokens ms),
           total_reasoning_tokens = sum_list (map m_reasoning_tokens ms),
           model_count = length ms, models = sort_reverse cost ms \<rparr>"
proof -
  have 1: "py_sum float_add (\<lambda>item. subscript ''usage'' (usage item)) 0 raw
             = Inr (float_sum (map cost ms))"
    using py_sum_all2[of "\<lambda>item. subscript ''usage'' (usage item)" cost raw ms float_add 0]
      list_all2_mono[OF ms, of "\<lambda>i m. subscript ''usage'' (usage i) = Inr (cost m)"]
    by (simp add: to_model_fields subscript_def float_sum_def)
  have 2: "py_sum (+) (\<lambda>item. subscript ''requests'' (requests item)) 0 raw
             = Inr (sum_list (map m_requests ms))"
    using py_sum_all2[of "\<lambda>item. subscript ''requests'' (requests item)" m_requests raw ms "(+)" 0]
      list_all2_mono[OF ms, of "\<lambda>i m. subscript ''requests'' (requests i) = Inr (m_requests m)"]
    by (simp add: to_model_fields subscript_def foldl_plus_sum_list)
  have 3: "py_sum (+) (\<lambda>item. subscript ''prompt_tokens'' (prompt_tokens item)) 0 raw
             = Inr (sum_list (map m_prompt_tokens ms))"
    using py_sum_all2[of "\<lambda>item. subscript ''prompt_tokens'' (prompt_tokens item)" m_prompt_tokens raw ms "(+)" 0]
      list_all2_mono[OF ms, of "\<lambda>i m. subscript ''prompt_tokens'' (prompt_tokens i) = Inr (m_prompt_tokens m)"]
    by (simp add: to_model_fields subscript_def foldl_plus_sum_list)
  have 4: "py_sum (+) (\<lambda>item. subscript ''completion_tokens'' (completion_tokens item)) 0 raw
             = Inr (sum_list (map m_completion_tokens ms))"
    using py_sum_all2[of "\<lambda>item. subscript ''completion_tokens'' (completion_tokens item)" m_completion_tokens raw ms "(+)" 0]
      list_all2_mono[OF ms, of "\<lambda>i m. subscript ''completion_tokens'' (completion_tokens i) = Inr (m_completion_tokens m)"]
    by (simp add: to_model_fields subscript_def foldl_plus_sum_list)
  have 5: "py_sum (+) (\<lambda>item. Inr (get_default (reasoning_tokens item) 0)) 0 raw
             = Inr (sum_list (map m_reasoning_tokens ms))"
    using py_sum_all2[of "\<lambda>item. Inr (get_default (reasoning_tokens item) 0)" m_reasoning_tokens raw ms "(+)" 0]
      list_all2_mono[OF ms, of "\<lambda>i m. Inr (get_default (reasoning_tokens i) 0) = (Inr (m_reasoning_tokens m) :: py_error + int)"]
    by (simp add: to_model_fields foldl_plus_sum_list)
  have 6: "build_models raw [] = Inr ms"
    using build_models_all2[OF ms, of "[]"] by simp
  show ?thesis
    unfolding transform_activity_data_def
    by (simp add: ne 1 2 3 4 5 6 length_sort_reverse)
qed

lemma transform_Inr_models:
  assumes "transform_activity_data raw d = Inr s" and "raw \<noteq> []"
  shows "\<exists>ms. list_all2 (\<lambda>i m. to_model i = Inr m) raw ms"
proof -
  from assms obtain ms where "build_models raw [] = Inr ms"
    unfolding transform_activity_data_def by (auto split: sum.splits)
  from build_models_Inr[OF this] show ?thesis by auto
qed

lemma transform_cases:
  assumes "transform_activity_data raw d = Inr s"
  obtains (empty) "raw = []"
    "s = \<lparr> date = d, total_cost = 0, total_requests = 0, total_prompt_tokens = 0,
           total_completion_tokens = 0, total_reasoning_tokens = 0,
           model_count = 0, models = [] \<rparr>"
  | (items) ms where "raw \<noteq> []" "list_all2 (\<lambda>i m. to_model i = Inr m) raw ms"
    "s = \<lparr> date = d, total_cost = float_sum (map cost ms),
           total_requests = sum_list (map m_requests ms),
           total_prompt_tokens = sum_list (map m_prompt_tokens ms),
           total_completion_tokens = sum_list (map m_completion_tokens ms),
           total_reasoning_tokens = sum_list (map m_reasoning_tokens ms),
           model_count = length ms, models = sort_reverse cost ms \<rparr>"
proof (cases "raw = []")
  case True
  with assms have "s = \<lparr> date = d, total_cost = 0, total_requests = 0, total_prompt_tokens = 0,
           total_completion_tokens = 0, total_reasoning_tokens = 0,
           model_count = 0, models = [] \<rparr>"
    by (simp add: transform_activity_data_def)
  with True show ?thesis by (rule empty)
next
  case False
  from transform_Inr_models[OF assms False] obtain ms
    where ms: "list_all2 (\<lambda>i m. to_model i = Inr m) raw ms" by blast
  from transform_of_models[OF False ms, of d] assms
  have "s = \<lparr> date = d, total_cost = float_sum (map cost ms),
           total_requests = sum_list (map m_requests ms),
           total_prompt_tokens = sum_list (map m_prompt_tokens ms),
           total_completion_tokens = sum_list (map m_completion_tokens ms),
           total_reasoning_tokens = sum_list (map m_reasoning_tokens ms),
           model_count = length ms, models = sort_reverse cost ms \<rparr>"
    by simp
  with False ms show ?thesis by (rule items)
qed

text \<open>
  The aggregator returns a summary for every list whose records carry the five
  required keys; a missing one makes it raise \<open>KeyError\<close>.
\<close>

lemma to_model_all2:
  assumes "list_all (\<lambda>item. usage item \<noteq> None \<and> requests item \<noteq> None
             \<and> prompt_tokens item \<noteq> None \<and> completion_tokens item \<noteq> None
             \<and> provider_name item \<noteq> None) raw"
  shows "\<exists>ms. list_all2 (\<lambda>i m. to_model i = Inr m) raw ms"
  using assms
proof (induction raw)
  case Nil
  show ?case by simp
next
  case (Cons item rest)
  then obtain ms where ms: "list_all2 (\<lambda>i m. to_model i = Inr m) rest ms" by auto
  from Cons.prems obtain c r p ct pv
    where "usage item = Some c" "requests item = Some r" "prompt_tokens item = Some p"
      "completion_tokens item = Some ct" "provider_name item = Some pv"
    by auto
  from to_model_total[OF this] obtain m where "to_model item = Inr m" by blast
  with ms have "list_all2 (\<lambda>i m. to_model i = Inr m) (item # rest) (m # ms)" by simp
  then show ?case by blast
qed

lemma transform_total:
  assumes "list_all (\<lambda>item. usage item \<noteq> None \<and> requests item \<noteq> None
             \<and> prompt_tokens item \<noteq> None \<and> completion_tokens item \<noteq> None
             \<and> provider_name item \<noteq> None) raw"
  shows "\<exists>s. transform_activity_data raw d = Inr s"
proof (cases "raw = []")
  case True
  then show ?thesis by (simp add: transform_activity_data_def)
next
  case False
  from to_model_all2[OF assms] obtain ms
    where "list_all2 (\<lambda>i m. to_model i = Inr m) raw ms" by blast
  from transform_of_models[OF False this, of d] show ?thesis by blast
qed

lemma transform_missing_key:
  "transform_activity_data [\<lparr> model_permaslug = None, model = Some ''gpt-x'', usage = None,
        requests = Some 10, prompt_tokens = Some 100, completion_tokens = Some 50,
        reasoning_tokens = None, byok_usage_inference = None, provider_name = Some ''acme'' \<rparr>] d
     = Inl (KeyError ''usage'')"
  by (simp add: transform_activity_data_def subscript_def)


subsection \<open>Totals and model count\<close>




subsection \<open>Order of the model list\<close>

text \<open>
  C2. The \<open>models\<close> list of a summary is sorted by \<open>cost\<close> in descending order, and
  the sort is stable: for every cost \<open>c\<close>, the entries of cost \<open>c\<close> appear in
  \<open>models\<close> in the order of the input records they were built from (\<open>ms\<close> is the
  list of per-record entries in input order).
\<close>

theorem models_sorted_desc_stable:
  assumes "transform_activity_data raw_data d = Inr s"
  shows "sorted_wrt (\<lambda>a b. cost b \<le> cost a) (models s)
       \<and> (\<exists>ms. list_all2 (\<lambda>item m. to_model item = Inr m) raw_data ms
             \<and> (\<forall>c. filter (\<lambda>m. cost m = c) (models s) = filter (\<lambda>m. cost m = c) ms))"
  using assms
proof (cases rule: transform_cases)
  case empty
  then show ?thesis by simp
next
  case (items ms)
  have "sorted_wrt (\<lambda>a b. cost b \<le> cost a) (models s)"
    using items(3) sorted_sort_reverse[of cost ms] by simp
  moreover have "\<forall>c. filter (\<lambda>m. cost m = c) (models s) = filter (\<lambda>m. cost m = c) ms"
    using items(3) stable_sort_reverse[of cost _ ms] by simp
  ultimately show ?thesis using items(2) by blast
qed

theorem models_sorted_desc_stable_witness:
  "transform_activity_data
     [\<lparr> model_permaslug = None, model = Some ''first'', usage = Some 2,
        requests = Some 1, prompt_tokens = Some 1, completion_tokens = Some 1,
        reasoning_tokens = None, byok_usage_inference = None, provider_name = Some ''p'' \<rparr>,
      \<lparr> model_permaslug = None, model = Some ''second'', usage = Some 7,
        requests = Some 1, prompt_tokens = Some 1, completion_tokens = Some 1,
        reasoning_tokens = None, byok_usage_inference = None, provider_name = Some ''p'' \<rparr>,
      \<lparr> model_permaslug = None, model = Some ''third'', usage = Some 2,
        requests = Some 1, prompt_tokens = Some 1, completion_tokens = Some 1,
        reasoning_tokens = None, byok_usage_inference = None, provider_name = Some ''p'' \<rparr>]
     ''2025-08-25''
   = Inr \<lparr> date = ''2025-08-25'', total_cost = 11, total_requests = 3,
           total_prompt_tokens = 3, total_completion_tokens = 3, total_reasoning_tokens = 0,
           model_count = 3,
           models =
             [\<lparr> name = ''second'', cost = 7, m_requests = 1, m_prompt_tokens = 1,
                m_completion_tokens = 1, m_reasoning_tokens = 0, byok_usage = 0, provider = ''p'' \<rparr>,
              \<lparr> name = ''first'', cost = 2, m_requests = 1, m_prompt_tokens = 1,
                m_completion_tokens = 1, m_reasoning_tokens = 0, byok_usage = 0, provider = ''p'' \<rparr>,
              \<lparr> name = ''third'', cost = 2, m_requests = 1, m_prompt_tokens = 1,
                m_completion_tokens = 1, m_reasoning_tokens = 0, byok_usage = 0, provider = ''p'' \<rparr>] \<rparr>
   \<and> sorted_wrt (\<lambda>a b. b \<le> a) [7, 2, 2 :: real]"
proof -
  let ?raw = "[\<lparr> model_permaslug = None, model = Some ''first'', usage = Some 2,
        requests = Some 1, prompt_tokens = Some 1, completion_tokens = Some 1,
        reasoning_tokens = None, byok_usage_inference = None, provider_name = Some ''p'' \<rparr>,
      \<lparr> model_permaslug = None, model = Some ''second'', usage = Some 7,
        requests = Some 1, prompt_tokens = Some 1, completion_tokens = Some 1,
        reasoning_tokens = None, byok_usage_inference = None, provider_name = Some ''p'' \<rparr>,
      \<lparr> model_permaslug = None, model = Some ''third'', usage = Some 2,
        requests = Some 1, prompt_tokens = Some 1, completion_tokens = Some 1,
        reasoning_tokens = None, byok_usage_inference = None, provider_name = Some ''p'' \<rparr>]"
  let ?s = "\<lparr> date = ''2025-08-25'', total_cost = 11, total_requests = 3,
           total_prompt_tokens = 3, total_completion_tokens = 3, total_reasoning_tokens = 0,
           model_count = 3,
           models =
             [\<lparr> name = ''second'', cost = 7, m_requests = 1, m_prompt_tokens = 1,
                m_completion_tokens = 1, m_reasoning_tokens = 0, byok_usage = 0, provider = ''p'' \<rparr>,
              \<lparr> name = ''first'', cost = 2, m_requests = 1, m_prompt_tokens = 1,
                m_completion_tokens = 1, m_reasoning_tokens = 0, byok_usage = 0, provider = ''p'' \<rparr>,
              \<lparr> name = ''third'', cost = 2, m_requests = 1, m_prompt_tokens = 1,
                m_completion_tokens = 1, m_reasoning_tokens = 0, byok_usage = 0, provider = ''p'' \<rparr>] \<rparr>"
  have h: "transform_activity_data ?raw ''2025-08-25'' = Inr ?s"
    by (simp add: transform_activity_data_def to_model_def subscript_def get_default_def
        sort_reverse_def float_add_def round_double_numeral round_double_half_numeral)
  from models_sorted_desc_stable[OF h] h show ?thesis by simp
qed

subsection \<open>Empty input\<close>

text \<open>
  C6. For an empty list of records the aggregator returns the zero-valued summary: the
  five totals are zero, \<open>model_count\<close> is zero and \<open>models\<close> is the empty list.
\<close>

theorem empty_input_zero_summary:
  "transform_activity_data [] d =
     Inr \<lparr> date = d, total_cost = 0, total_requests = 0, total_prompt_tokens = 0,
           total_completion_tokens = 0, total_reasoning_tokens = 0,
           model_count = 0, models = [] \<rparr>"
  by (simp add: transform_activity_data_def)

subsection \<open>Display name\<close>

text \<open>
  C9. The \<open>name\<close> of the entry built from a record is the record's \<open>model_permaslug\<close>
  when that key is present, otherwise its \<open>model\<close> when that key is present,
  otherwise the empty string.
\<close>

theorem name_prefers_permaslug:
  assumes "to_model item = Inr m"
  shows "name m =
     (case model_permaslug item of
        Some slug \<Rightarrow> slug
      | None \<Rightarrow> (case model item of Some generic \<Rightarrow> generic | None \<Rightarrow> ''''))"
  using to_model_fields(8)[OF assms]
  by (simp add: get_default_def split: option.splits)

theorem name_prefers_permaslug_witness:
  "to_model \<lparr> model_permaslug = None, model = Some ''gpt-x'', usage = Some 3.5,
        requests = Some 10, prompt_tokens = Some 100, completion_tokens = Some 50,
        reasoning_tokens = None, byok_usage_inference = None, provider_name = Some ''acme'' \<rparr>
   = Inr \<lparr> name = ''gpt-x'', cost = 3.5, m_requests = 10, m_prompt_tokens = 100,
           m_completion_tokens = 50, m_reasoning_tokens = 0, byok_usage = 0,
           provider = ''acme'' \<rparr>
   \<and> name \<lparr> name = ''gpt-x'', cost = 3.5, m_requests = 10, m_prompt_tokens = 100,
           m_completion_tokens = 50, m_reasoning_tokens = 0, byok_usage = 0,
           provider = ''acme'' \<rparr> = ''gpt-x''"
proof -
  have h: "to_model \<lparr> model_permaslug = None, model = Some ''gpt-x'', usage = Some 3.5,
        requests = Some 10, prompt_tokens = Some 100, completion_tokens = Some 50,
        reasoning_tokens = None, byok_usage_inference = None, provider_name = Some ''acme'' \<rparr>
   = Inr \<lparr> name = ''gpt-x'', cost = 3.5, m_requests = 10, m_prompt_tokens = 100,
           m_completion_tokens = 50, m_reasoning_tokens = 0, byok_usage = 0,
           provider = ''acme'' \<rparr>"
    by (simp add: to_model_def subscript_def get_default_def)
  from name_prefers_permaslug[OF h] h show ?thesis by simp
qed

subsection \<open>One entry per record\<close>

text \<open>
  C10. The \<open>models\<close> list is a permutation of the per-record entries: there is a list
  \<open>ms\<close> with one entry for each input record, in input order, each carrying the
  record's fields unchanged (defaults filled in for the optional keys), and \<open>models\<close>
  has the same entries with the same multiplicities. In particular its length is the
  number of input records: records with the same name are not merged.
\<close>

theorem models_permutation_of_records:
  assumes "transform_activity_data raw_data d = Inr s"
  shows "\<exists>ms. list_all2 (\<lambda>item m.
              usage item = Some (cost m)
            \<and> requests item = Some (m_requests m)
            \<and> prompt_tokens item = Some (m_prompt_tokens m)
            \<and> completion_tokens item = Some (m_completion_tokens m)
            \<and> provider_name item = Some (provider m)
            \<and> m_reasoning_tokens m = get_default (reasoning_tokens item) 0
            \<and> byok_usage m = get_default (byok_usage_inference item) 0
            \<and> name m = get_default (model_permaslug item) (get_default (model item) [])) raw_data ms
          \<and> mset (models s) = mset ms
          \<and> length (models s) = length raw_data"
  using assms
proof (cases rule: transform_cases)
  case empty
  then show ?thesis by simp
next
  case (items ms)
  have "list_all2 (\<lambda>item m.
              usage item = Some (cost m)
            \<and> requests item = Some (m_requests m)
            \<and> prompt_tokens item = Some (m_prompt_tokens m)
            \<and> completion_tokens item = Some (m_completion_tokens m)
            \<and> provider_name item = Some (provider m)
            \<and> m_reasoning_tokens m = get_default (reasoning_tokens item) 0
            \<and> byok_usage m = get_default (byok_usage_inference item) 0
            \<and> name m = get_default (model_permaslug item) (get_default (model item) [])) raw_data ms"
    using items(2)
    by (rule list_all2_mono) (simp add: to_model_fields)
  moreover have "mset (models s) = mset ms"
    using items(3) by (simp add: mset_sort_reverse)
  moreover have "length (models s) = length raw_data"
    using items(2,3) by (simp add: length_sort_reverse list_all2_lengthD)
  ultimately show ?thesis by blast
qed

theorem models_permutation_of_records_witness:
  "transform_activity_data
     [\<lparr> model_permaslug = None, model = Some ''same'', usage = Some 2,
        requests = Some 1, prompt_tokens = Some 5, completion_tokens = Some 6,
        reasoning_tokens = None, byok_usage_inference = None, provider_name = Some ''p'' \<rparr>,
      \<lparr> model_permaslug = None, model = Some ''same'', usage = Some 7,
        requests = Some 3, prompt_tokens = Some 8, completion_tokens = Some 9,
        reasoning_tokens = None, byok_usage_inference = None, provider_name = Some ''q'' \<rparr>]
     ''2025-08-25''
   = Inr \<lparr> date = ''2025-08-25'', total_cost = 9, total_requests = 4,
           total_prompt_tokens = 13, total_completion_tokens = 15, total_reasoning_tokens = 0,
           model_count = 2,
           models =
             [\<lparr> name = ''same'', cost = 7, m_requests = 3, m_prompt_tokens = 8,
                m_completion_tokens = 9, m_reasoning_tokens = 0, byok_usage = 0, provider = ''q'' \<rparr>,
              \<lparr> name = ''same'', cost = 2, m_requests = 1, m_prompt_tokens = 5,
                m_completion_tokens = 6, m_reasoning_tokens = 0, byok_usage = 0, provider = ''p'' \<rparr>] \<rparr>
   \<and> length [7, 2 :: real] = length [''same'', ''same'']"
proof -
  let ?raw = "[\<lparr> model_permaslug = None, model = Some ''same'', usage = Some 2,
        requests = Some 1, prompt_tokens = Some 5, completion_tokens = Some 6,
        reasoning_tokens = None, byok_usage_inference = None, provider_name = Some ''p'' \<rparr>,
      \<lparr> model_permaslug = None, model = Some ''same'', usage = Some 7,
        requests = Some 3, prompt_tokens = Some 8, completion_tokens = Some 9,
        reasoning_tokens = None, byok_usage_inference = None, provider_name = Some ''q'' \<rparr>]"
  let ?s = "\<lparr> date = ''2025-08-25'', total_cost = 9, total_requests = 4,
           total_prompt_tokens = 13, total_completion_tokens = 15, total_reasoning_tokens = 0,
           model_count = 2,
           models =
             [\<lparr> name = ''same'', cost = 7, m_requests = 3, m_prompt_tokens = 8,
                m_completion_tokens = 9, m_reasoning_tokens = 0, byok_usage = 0, provider = ''q'' \<rparr>,
              \<lparr> name = ''same'', cost = 2, m_requests = 1, m_prompt_tokens = 5,
                m_completion_tokens = 6, m_reasoning_tokens = 0, byok_usage = 0, provider = ''p'' \<rparr>] \<rparr>"
  have h: "transform_activity_data ?raw ''2025-08-25'' = Inr ?s"
    by (simp add: transform_activity_data_def to_model_def subscript_def get_default_def
        sort_reverse_def float_add_def round_double_numeral round_double_half_numeral)
  from models_permutation_of_records[OF h] h show ?thesis by simp
qed

section \<open>Properties of the event sender\<close>

text \<open>
  C7. The envelope built for date string \<open>d\<close> carries the timestamp \<open>d\<close> followed by
  \<open>T23:30:00Z\<close>, the fixed event name and the summary as its properties; it is a
  function of the arguments alone (no clock is read), and it is the body that
  \<open>send_to_posthog\<close> posts: the sender succeeds exactly when the service answers the
  post of this envelope with status \<open>Ok\<close>.
\<close>

theorem envelope_timestamp_pinned:
  "timestamp (posthog_payload key event_data d) = d @ ''T23:30:00Z''
   \<and> event (posthog_payload key event_data d) = ''openrouter_daily_activity''
   \<and> properties (posthog_payload key event_data d) = event_data
   \<and> posthog_payload key event_data ''2025-08-25''
       = \<lparr> api_key = key, event = ''openrouter_daily_activity'',
           distinct_id = ''enchanted_github_actions'', properties = event_data,
           timestamp = ''2025-08-25T23:30:00Z'' \<rparr>
   \<and> (send_to_posthog env key host event_data d = Inr ()) =
       (\<exists>result. http_post env (host @ ''/i/v0/e/'') (posthog_payload key event_data d) = Inr result
                 \<and> status result = Some ''Ok'')"
proof -
  have "(send_to_posthog env key host event_data d = Inr ()) =
       (\<exists>result. http_post env (host @ ''/i/v0/e/'') (posthog_payload key event_data d) = Inr result
                 \<and> status result = Some ''Ok'')"
    unfolding send_to_posthog_def by (auto split: sum.splits)
  then show ?thesis by (simp add: posthog_payload_def)
qed

section \<open>Properties of the date range planner\<close>

subsection \<open>Formatting and parsing are inverse on dates\<close>

lemma small_nat_cases:
  fixes k :: nat
  assumes "k < 10"
  shows "k = 0 \<or> k = 1 \<or> k = 2 \<or> k = 3 \<or> k = 4 \<or> k = 5 \<or> k = 6 \<or> k = 7 \<or> k = 8 \<or> k = 9"
  using assms by arith

lemma digit_char_props: "is_digit (digit_char n) \<and> digit_val (digit_char n) = n mod 10"
proof -
  have "n mod 10 < 10" by simp
  from small_nat_cases[OF this] show ?thesis
    by (elim disjE; simp add: digit_char_def is_digit_def digit_val_def)
qed

lemma digits4:
  fixes y :: nat
  assumes "y \<le> 9999"
  shows "1000 * (y div 1000 mod 10) + 100 * (y div 100 mod 10) + 10 * (y div 10 mod 10) + y mod 10 = y"
proof -
  have a: "y div 1000 mod 10 = y div 1000" using assms by simp
  have b: "y div 100 = 10 * (y div 1000) + y div 100 mod 10"
    using div_mult2_eq[of y 100 10] by simp
  have c: "y div 10 = 10 * (y div 100) + y div 10 mod 10"
    using div_mult2_eq[of y 10 10] by simp
  have d: "y = 10 * (y div 10) + y mod 10" by simp
  from a b c d show ?thesis by linarith
qed

lemma match_year_strftime:
  assumes "y \<le> 9999"
  shows "match_year (digit_char (y div 1000) # digit_char (y div 100) # digit_char (y div 10)
           # digit_char y # rest) = Some (y, rest)"
proof -
  have "y div 1000 mod 10 = y div 1000" using assms by simp
  with digits4[OF assms] show ?thesis by (simp add: digit_char_props)
qed

lemma match_month_digits:
  assumes "a \<le> 1" "b < 10" "1 \<le> 10 * a + b" "10 * a + b \<le> 12"
  shows "match_month (digit_char a # digit_char b # rest) = Some (10 * a + b, rest)"
proof -
  from assms(1) have a: "a = 0 \<or> a = 1" by arith
  from a small_nat_cases[OF assms(2)] assms(3,4) show ?thesis
    by - (elim disjE; simp add: digit_char_def is_digit_def digit_val_def)
qed

lemma match_month_strftime:
  assumes "1 \<le> m" "m \<le> 12"
  shows "match_month (digit_char (m div 10) # digit_char m # rest) = Some (m, rest)"
proof -
  have "digit_char m = digit_char (m mod 10)" by (simp add: digit_char_def)
  moreover have "m div 10 \<le> 1" using assms by simp
  moreover have "10 * (m div 10) + m mod 10 = m" by simp
  ultimately show ?thesis
    using match_month_digits[of "m div 10" "m mod 10" rest] assms by simp
qed

lemma match_day_digits:
  assumes "a \<le> 3" "b < 10" "1 \<le> 10 * a + b" "10 * a + b \<le> 31"
  shows "match_day [digit_char a, digit_char b] = Some (10 * a + b, [])"
proof -
  from assms(1) have a: "a = 0 \<or> a = 1 \<or> a = 2 \<or> a = 3" by arith
  from a small_nat_cases[OF assms(2)] assms(3,4) show ?thesis
    by - (elim disjE; simp add: digit_char_def is_digit_def digit_val_def)
qed

lemma match_day_strftime:
  assumes "1 \<le> d" "d \<le> 31"
  shows "match_day [digit_char (d div 10), digit_char d] = Some (d, [])"
proof -
  have "digit_char d = digit_char (d mod 10)" by (simp add: digit_char_def)
  moreover have "d div 10 \<le> 3" using assms by simp
  moreover have "10 * (d div 10) + d mod 10 = d" by simp
  ultimately show ?thesis
    using match_day_digits[of "d div 10" "d mod 10"] assms by simp
qed

lemma days_in_month_le: "days_in_month y m \<le> 31"
  by (simp add: days_in_month_def)

lemma strptime_strftime:
  assumes "valid_date dt"
  shows "strptime (strftime dt) = Inr dt"
proof -
  from assms have y: "year dt \<le> 9999" and m: "1 \<le> month dt" "month dt \<le> 12"
    and d: "1 \<le> day dt" "day dt \<le> 31"
    using days_in_month_le[of "year dt" "month dt"] by (auto simp: valid_date_def)
  have eq: "\<lparr> year = year dt, month = month dt, day = day dt \<rparr> = dt" by simp
  have "strptime (strftime dt) =
      (if valid_date \<lparr> year = year dt, month = month dt, day = day dt \<rparr>
       then Inr \<lparr> year = year dt, month = month dt, day = day dt \<rparr> else Inl ValueError)"
    unfolding strptime_def strftime_def
    by (simp only: match_year_strftime[OF y] match_month_strftime[OF m]
        match_day_strftime[OF d] match_dash.simps option.case prod.case if_True
        simp_thms if_False)
  with assms show ?thesis by (simp only: eq if_True)
qed

subsection \<open>The order on dates and the following day\<close>

lemma datetime_eqI:
  fixes a b :: datetime
  shows "year a = year b \<Longrightarrow> month a = month b \<Longrightarrow> day a = day b \<Longrightarrow> a = b"
  by simp

lemma datetime_le_refl: "datetime_le a a"
  by (simp add: datetime_le_def)

lemma datetime_le_trans: "datetime_le a b \<Longrightarrow> datetime_le b c \<Longrightarrow> datetime_le a c"
  by (auto simp: datetime_le_def)

lemma datetime_less_le_trans: "datetime_less a b \<Longrightarrow> datetime_le b c \<Longrightarrow> datetime_less a c"
  by (auto simp: datetime_le_def datetime_less_def)

lemma datetime_less_imp_le: "datetime_less a b \<Longrightarrow> datetime_le a b"
  by (auto simp: datetime_le_def datetime_less_def)

lemma datetime_less_irrefl: "\<not> datetime_less a a"
  by (simp add: datetime_less_def)

lemma datetime_le_less: "datetime_le a b \<longleftrightarrow> a = b \<or> datetime_less a b"
  by (auto simp: datetime_le_def datetime_less_def intro: datetime_eqI)

lemma datetime_not_le: "\<not> datetime_le a b \<longleftrightarrow> datetime_less b a"
  by (auto simp: datetime_le_def datetime_less_def)

lemma days_in_month_ge: "28 \<le> days_in_month y m"
  by (simp add: days_in_month_def)

lemma days_in_december: "days_in_month y 12 = 31"
  by (simp add: days_in_month_def)

lemma valid_date_le_max:
  "valid_date d \<Longrightarrow> datetime_le d \<lparr> year = 9999, month = 12, day = 31 \<rparr>"
  using days_in_month_le[of "year d" "month d"]
  by (auto simp: valid_date_def datetime_le_def)

lemma add_one_day_valid:
  assumes "valid_date d" and "add_one_day d = Inr n"
  shows "valid_date n"
  using assms days_in_month_ge[of "year d" "month d + 1"] days_in_month_ge[of "year d + 1" 1]
  by (auto simp: add_one_day_def valid_date_def split: if_splits)

lemma add_one_day_less:
  assumes "add_one_day d = Inr n"
  shows "datetime_less d n"
  using assms by (auto simp: add_one_day_def datetime_less_def split: if_splits)

lemma add_one_day_least:
  assumes "valid_date d" and "add_one_day d = Inr n" and "valid_date e" and "datetime_less d e"
  shows "datetime_le n e"
proof (cases "day d < days_in_month (year d) (month d)")
  case True
  with assms(2) have "n = d\<lparr>day := day d + 1\<rparr>" by (simp add: add_one_day_def)
  with assms(4) show ?thesis by (auto simp: datetime_le_def datetime_less_def)
next
  case False
  with assms(1) have last: "day d = days_in_month (year d) (month d)"
    by (simp add: valid_date_def)
  show ?thesis
  proof (cases "month d < 12")
    case True
    with False assms(2) have n: "n = d\<lparr>month := month d + 1, day := 1\<rparr>"
      by (simp add: add_one_day_def)
    from assms(3) have "1 \<le> day e" "day e \<le> days_in_month (year e) (month e)"
      by (simp_all add: valid_date_def)
    with assms(4) last n show ?thesis
      by (auto simp: datetime_le_def datetime_less_def)
  next
    case m12: False
    with assms(1) have m: "month d = 12" by (simp add: valid_date_def)
    from False m12 assms(2) have n: "n = \<lparr> year = year d + 1, month = 1, day = 1 \<rparr>"
      by (simp add: add_one_day_def split: if_splits)
    from assms(3) have "1 \<le> day e" "1 \<le> month e" "month e \<le> 12"
      "day e \<le> days_in_month (year e) (month e)"
      by (simp_all add: valid_date_def)
    with assms(4) last n m days_in_december[of "year d"] show ?thesis
      by (auto simp: datetime_le_def datetime_less_def)
  qed
qed

lemma add_one_day_Inr:
  assumes "valid_date d" and "d \<noteq> \<lparr> year = 9999, month = 12, day = 31 \<rparr>"
  shows "\<exists>n. add_one_day d = Inr n"
proof -
  have "day d < days_in_month (year d) (month d) \<or> month d < 12 \<or> year d < 9999"
  proof (rule ccontr)
    assume "\<not> ?thesis"
    with assms(1) have "year d = 9999" "month d = 12" "day d = days_in_month (year d) (month d)"
      by (auto simp: valid_date_def)
    then have "d = \<lparr> year = 9999, month = 12, day = 31 \<rparr>"
      using days_in_december[of 9999] by (intro datetime_eqI) simp_all
    with assms(2) show False by simp
  qed
  then show ?thesis by (auto simp: add_one_day_def)
qed

lemma add_one_day_max:
  "add_one_day \<lparr> year = 9999, month = 12, day = 31 \<rparr> = Inl OverflowError"
  by (simp add: add_one_day_def days_in_month_def)

subsection \<open>The loop\<close>

lemma date_loop_stop: "\<not> datetime_le current end_dt \<Longrightarrow> date_loop current end_dt dates = Inr dates"
  by (subst date_loop.simps) simp

lemma date_loop_step:
  "datetime_le current end_dt \<Longrightarrow> add_one_day current = Inr n \<Longrightarrow>
   date_loop current end_dt dates = date_loop n end_dt (dates @ [strftime current])"
  by (subst date_loop.simps) simp

lemma date_loop_overflow:
  "datetime_le current end_dt \<Longrightarrow> add_one_day current = Inl e \<Longrightarrow>
   date_loop current end_dt dates = Inl e"
  by (subst date_loop.simps) simp

lemma datetime_le_antisym: "datetime_le a b \<Longrightarrow> datetime_le b a \<Longrightarrow> a = b"
  by (rule datetime_eqI) (auto simp: datetime_le_def)

lemma date_loop_range:
  assumes "valid_date end_dt" and "end_dt \<noteq> \<lparr> year = 9999, month = 12, day = 31 \<rparr>"
    and "valid_date current"
  shows "\<exists>ds. date_loop current end_dt dates = Inr (dates @ map strftime ds) \<and>
           sorted_wrt datetime_less ds \<and>
           set ds = {d. valid_date d \<and> datetime_le current d \<and> datetime_le d end_dt}"
  using assms
proof (induction current end_dt dates rule: date_loop.induct)
  case (1 current end_dt dates)
  show ?case
  proof (cases "datetime_le current end_dt")
    case False
    have "{d. valid_date d \<and> datetime_le current d \<and> datetime_le d end_dt} = {}"
    proof -
      have "\<not> (datetime_le current d \<and> datetime_le d end_dt)" for d
        using False datetime_le_trans[of current d end_dt] by blast
      then show ?thesis by simp
    qed
    with False show ?thesis
      by (intro exI[of _ "[]"]) (simp add: date_loop_stop)
  next
    case True
    have "current \<noteq> \<lparr> year = 9999, month = 12, day = 31 \<rparr>"
    proof
      assume mx: "current = \<lparr> year = 9999, month = 12, day = 31 \<rparr>"
      from valid_date_le_max[OF "1.prems"(1)] mx have "datetime_le end_dt current" by simp
      with True have "current = end_dt" by (rule datetime_le_antisym)
      with mx "1.prems"(2) show False by simp
    qed
    from add_one_day_Inr[OF "1.prems"(3) this] obtain n where n: "add_one_day current = Inr n"
      by blast
    have vn: "valid_date n" by (rule add_one_day_valid[OF "1.prems"(3) n])
    have cn: "datetime_less current n" by (rule add_one_day_less[OF n])
    from "1.IH"[OF True n "1.prems"(1,2) vn] obtain ds
      where ds1: "date_loop n end_dt (dates @ [strftime current])
                    = Inr ((dates @ [strftime current]) @ map strftime ds)"
        and ds2: "sorted_wrt datetime_less ds"
        and ds3: "set ds = {d. valid_date d \<and> datetime_le n d \<and> datetime_le d end_dt}"
      by blast
    have res: "date_loop current end_dt dates = Inr (dates @ map strftime (current # ds))"
      using date_loop_step[OF True n, of dates] ds1 by simp
    have "datetime_less current d" if "d \<in> set ds" for d
    proof -
      from that ds3 have "datetime_le n d" by simp
      with cn show ?thesis by (rule datetime_less_le_trans)
    qed
    with ds2 have srt: "sorted_wrt datetime_less (current # ds)" by simp
    have "set (current # ds) = {d. valid_date d \<and> datetime_le current d \<and> datetime_le d end_dt}"
    proof (intro set_eqI iffI)
      fix d assume "d \<in> set (current # ds)"
      then consider "d = current" | "d \<in> set ds" by auto
      then show "d \<in> {d. valid_date d \<and> datetime_le current d \<and> datetime_le d end_dt}"
      proof cases
        case 1
        with True "1.prems"(3) show ?thesis by (simp add: datetime_le_refl)
      next
        case 2
        with ds3 have d: "valid_date d" "datetime_le n d" "datetime_le d end_dt" by simp_all
        from cn d(2) have "datetime_less current d" by (rule datetime_less_le_trans)
        then have "datetime_le current d" by (rule datetime_less_imp_le)
        with d show ?thesis by simp
      qed
    next
      fix d assume "d \<in> {d. valid_date d \<and> datetime_le current d \<and> datetime_le d end_dt}"
      then have d: "valid_date d" "datetime_le current d" "datetime_le d end_dt" by simp_all
      from d(2) consider "d = current" | "datetime_less current d"
        using datetime_le_less[of current d] by blast
      then show "d \<in> set (current # ds)"
      proof cases
        case 1
        then show ?thesis by simp
      next
        case 2
        from add_one_day_least[OF "1.prems"(3) n d(1) 2] d ds3 show ?thesis by simp
      qed
    qed
    with res srt show ?thesis by blast
  qed
qed

lemma strptime_valid: "strptime s = Inr d \<Longrightarrow> valid_date d"
  by (auto simp: strptime_def split: option.splits prod.splits if_splits)

lemma strptime_nonempty: "strptime s = Inr d \<Longrightarrow> s \<noteq> []"
  by (auto simp: strptime_def)

lemma parse_date_range_with_end:
  assumes "strptime start_date = Inr start" and "strptime end_date = Inr end_dt"
  shows "parse_date_range start_date (Some end_date) = date_loop start end_dt []"
  using assms strptime_nonempty[OF assms(2)] by (simp add: parse_date_range_def)

lemma parse_date_range_example:
  "parse_date_range ''2025-08-20'' (Some ''2025-08-22'')
     = Inr [''2025-08-20'', ''2025-08-21'', ''2025-08-22'']"
proof -
  have s: "strptime ''2025-08-20'' = Inr \<lparr> year = 2025, month = 8, day = 20 \<rparr>"
    by (simp add: strptime_def is_digit_def digit_val_def valid_date_def days_in_month_def)
  have e: "strptime ''2025-08-22'' = Inr \<lparr> year = 2025, month = 8, day = 22 \<rparr>"
    by (simp add: strptime_def is_digit_def digit_val_def valid_date_def days_in_month_def)
  have "date_loop \<lparr> year = 2025, month = 8, day = 20 \<rparr> \<lparr> year = 2025, month = 8, day = 22 \<rparr> []
          = Inr [''2025-08-20'', ''2025-08-21'', ''2025-08-22'']"
    by (simp add: date_loop.simps datetime_le_def add_one_day_def days_in_month_def
        strftime_def digit_char_def)
  then show ?thesis
    by (simp only: parse_date_range_with_end[OF s e])
qed

subsection \<open>Start and end\<close>

text \<open>
  The ranges the loop completes. For every start string and end string that
  \<open>strptime\<close> accepts, with start not after end and end before 9999-12-31, the
  planner returns the formatted dates \<open>ds\<close>, where \<open>ds\<close> is strictly ascending and
  holds exactly the calendar dates from start to end, both included. In particular
  the range from 2025-08-20 to 2025-08-22 is the three days 20, 21 and 22 August.
\<close>

lemma planner_inclusive_range:
  "(strptime start_date = Inr start \<and> strptime end_date = Inr end_dt
      \<and> datetime_le start end_dt \<and> end_dt \<noteq> \<lparr> year = 9999, month = 12, day = 31 \<rparr>
    \<longrightarrow> (\<exists>ds. parse_date_range start_date (Some end_date) = Inr (map strftime ds)
             \<and> sorted_wrt datetime_less ds
             \<and> set ds = {d. valid_date d \<and> datetime_le start d \<and> datetime_le d end_dt}))
   \<and> parse_date_range ''2025-08-20'' (Some ''2025-08-22'')
       = Inr [''2025-08-20'', ''2025-08-21'', ''2025-08-22'']"
proof (intro conjI impI)
  assume h: "strptime start_date = Inr start \<and> strptime end_date = Inr end_dt
      \<and> datetime_le start end_dt \<and> end_dt \<noteq> \<lparr> year = 9999, month = 12, day = 31 \<rparr>"
  then have s: "strptime start_date = Inr start" and e: "strptime end_date = Inr end_dt"
    and ne: "end_dt \<noteq> \<lparr> year = 9999, month = 12, day = 31 \<rparr>" by simp_all
  from date_loop_range[OF strptime_valid[OF e] ne strptime_valid[OF s], of "[]"]
  show "\<exists>ds. parse_date_range start_date (Some end_date) = Inr (map strftime ds)
             \<and> sorted_wrt datetime_less ds
             \<and> set ds = {d. valid_date d \<and> datetime_le start d \<and> datetime_le d end_dt}"
    by (simp add: parse_date_range_with_end[OF s e])
next
  show "parse_date_range ''2025-08-20'' (Some ''2025-08-22'')
       = Inr [''2025-08-20'', ''2025-08-21'', ''2025-08-22'']"
    by (rule parse_date_range_example)
qed

lemma planner_inclusive_range_leap_year:
  "strptime ''2024-02-28'' = Inr \<lparr> year = 2024, month = 2, day = 28 \<rparr>
   \<and> strptime ''2024-03-01'' = Inr \<lparr> year = 2024, month = 3, day = 1 \<rparr>
   \<and> datetime_le \<lparr> year = 2024, month = 2, day = 28 \<rparr> \<lparr> year = 2024, month = 3, day = 1 \<rparr>
   \<and> \<lparr> year = 2024, month = 3, day = 1 \<rparr> \<noteq> \<lparr> year = 9999, month = 12, day = 31 \<rparr>
   \<and> (\<exists>ds. parse_date_range ''2024-02-28'' (Some ''2024-03-01'') = Inr (map strftime ds)
          \<and> sorted_wrt datetime_less ds
          \<and> set ds = {d. valid_date d \<and> datetime_le \<lparr> year = 2024, month = 2, day = 28 \<rparr> d
                         \<and> datetime_le d \<lparr> year = 2024, month = 3, day = 1 \<rparr>})
   \<and> parse_date_range ''2024-02-28'' (Some ''2024-03-01'')
       = Inr [''2024-02-28'', ''2024-02-29'', ''2024-03-01'']"
proof -
  have s: "strptime ''2024-02-28'' = Inr \<lparr> year = 2024, month = 2, day = 28 \<rparr>"
    by (simp add: strptime_def is_digit_def digit_val_def valid_date_def days_in_month_def
        is_leap_def)
  have e: "strptime ''2024-03-01'' = Inr \<lparr> year = 2024, month = 3, day = 1 \<rparr>"
    by (simp add: strptime_def is_digit_def digit_val_def valid_date_def days_in_month_def)
  have le: "datetime_le \<lparr> year = 2024, month = 2, day = 28 \<rparr> \<lparr> year = 2024, month = 3, day = 1 \<rparr>"
    by (simp add: datetime_le_def)
  have ne: "\<lparr> year = 2024, month = 3, day = 1 \<rparr> \<noteq> \<lparr> year = 9999, month = 12, day = 31 \<rparr>"
    by simp
  have "date_loop \<lparr> year = 2024, month = 2, day = 28 \<rparr> \<lparr> year = 2024, month = 3, day = 1 \<rparr> []
          = Inr [''2024-02-28'', ''2024-02-29'', ''2024-03-01'']"
    by (simp add: date_loop.simps datetime_le_def add_one_day_def days_in_month_def is_leap_def
        strftime_def digit_char_def)
  then have r: "parse_date_range ''2024-02-28'' (Some ''2024-03-01'')
       = Inr [''2024-02-28'', ''2024-02-29'', ''2024-03-01'']"
    by (simp only: parse_date_range_with_end[OF s e])
  from planner_inclusive_range[of "''2024-02-28''" "\<lparr> year = 2024, month = 2, day = 28 \<rparr>"
      "''2024-03-01''" "\<lparr> year = 2024, month = 3, day = 1 \<rparr>"] s e le ne
  have "\<exists>ds. parse_date_range ''2024-02-28'' (Some ''2024-03-01'') = Inr (map strftime ds)
          \<and> sorted_wrt datetime_less ds
          \<and> set ds = {d. valid_date d \<and> datetime_le \<lparr> year = 2024, month = 2, day = 28 \<rparr> d
                         \<and> datetime_le d \<lparr> year = 2024, month = 3, day = 1 \<rparr>}"
    by blast
  with s e le ne r show ?thesis by blast
qed

text \<open>
  C5 asks for the inclusive range for every start not after end. The code does not
  return it when the end is 9999-12-31, the last day the library represents: the
  loop appends that day and then adds one more day to \<open>current\<close> before it tests
  the bound again, which raises \<open>OverflowError\<close>. The list the claim asks for,
  holding 9999-12-31 alone, is what the branch without an end date returns for
  the same start.
\<close>

theorem range_ending_last_day_overflows:
  "strptime ''9999-12-31'' = Inr \<lparr> year = 9999, month = 12, day = 31 \<rparr>
   \<and> datetime_le \<lparr> year = 9999, month = 12, day = 31 \<rparr> \<lparr> year = 9999, month = 12, day = 31 \<rparr>
   \<and> parse_date_range ''9999-12-31'' (Some ''9999-12-31'') = Inl OverflowError
   \<and> parse_date_range ''9999-12-31'' None = Inr [''9999-12-31'']"
proof -
  have s: "strptime ''9999-12-31'' = Inr \<lparr> year = 9999, month = 12, day = 31 \<rparr>"
    by (simp add: strptime_def is_digit_def digit_val_def valid_date_def days_in_month_def)
  have le: "datetime_le \<lparr> year = 9999, month = 12, day = 31 \<rparr> \<lparr> year = 9999, month = 12, day = 31 \<rparr>"
    by (rule datetime_le_refl)
  have "date_loop \<lparr> year = 9999, month = 12, day = 31 \<rparr> \<lparr> year = 9999, month = 12, day = 31 \<rparr> []
          = Inl OverflowError"
    by (rule date_loop_overflow[OF le add_one_day_max])
  then have r: "parse_date_range ''9999-12-31'' (Some ''9999-12-31'') = Inl OverflowError"
    by (simp only: parse_date_range_with_end[OF s s])
  have "parse_date_range ''9999-12-31'' None = Inr [''9999-12-31'']"
    by (simp add: parse_date_range_def s strftime_def digit_char_def)
  with s le r show ?thesis by blast
qed

lemma parse_date_range_reversed_example:
  "parse_date_range ''2025-08-22'' (Some ''2025-08-20'') = Inr []"
proof -
  have s: "strptime ''2025-08-22'' = Inr \<lparr> year = 2025, month = 8, day = 22 \<rparr>"
    by (simp add: strptime_def is_digit_def digit_val_def valid_date_def days_in_month_def)
  have e: "strptime ''2025-08-20'' = Inr \<lparr> year = 2025, month = 8, day = 20 \<rparr>"
    by (simp add: strptime_def is_digit_def digit_val_def valid_date_def days_in_month_def)
  have "\<not> datetime_le \<lparr> year = 2025, month = 8, day = 22 \<rparr> \<lparr> year = 2025, month = 8, day = 20 \<rparr>"
    by (simp add: datetime_le_def)
  then have "date_loop \<lparr> year = 2025, month = 8, day = 22 \<rparr> \<lparr> year = 2025, month = 8, day = 20 \<rparr> [] = Inr []"
    by (rule date_loop_stop)
  then show ?thesis
    by (simp only: parse_date_range_with_end[OF s e])
qed

subsection \<open>End before start\<close>

text \<open>
  C3, as the code has it. For every start string and end string that \<open>strptime\<close>
  accepts, with the end date before the start date, the planner returns the empty
  list; it raises no error.
\<close>

theorem planner_reversed_range_empty:
  assumes "strptime start_date = Inr start" and "strptime end_date = Inr end_dt"
    and "datetime_less end_dt start"
  shows "parse_date_range start_date (Some end_date) = Inr []"
proof -
  from assms(3) have "\<not> datetime_le start end_dt" by (simp add: datetime_not_le)
  then have "date_loop start end_dt [] = Inr []" by (rule date_loop_stop)
  then show ?thesis by (simp only: parse_date_range_with_end[OF assms(1,2)])
qed

theorem planner_reversed_range_empty_witness:
  "strptime ''2025-08-22'' = Inr \<lparr> year = 2025, month = 8, day = 22 \<rparr>
   \<and> strptime ''2025-08-20'' = Inr \<lparr> year = 2025, month = 8, day = 20 \<rparr>
   \<and> datetime_less \<lparr> year = 2025, month = 8, day = 20 \<rparr> \<lparr> year = 2025, month = 8, day = 22 \<rparr>
   \<and> parse_date_range ''2025-08-22'' (Some ''2025-08-20'') = Inr []"
proof -
  have s: "strptime ''2025-08-22'' = Inr \<lparr> year = 2025, month = 8, day = 22 \<rparr>"
    by (simp add: strptime_def is_digit_def digit_val_def valid_date_def days_in_month_def)
  have e: "strptime ''2025-08-20'' = Inr \<lparr> year = 2025, month = 8, day = 20 \<rparr>"
    by (simp add: strptime_def is_digit_def digit_val_def valid_date_def days_in_month_def)
  have lt: "datetime_less \<lparr> year = 2025, month = 8, day = 20 \<rparr> \<lparr> year = 2025, month = 8, day = 22 \<rparr>"
    by (simp add: datetime_less_def)
  from planner_reversed_range_empty[OF s e lt] s e lt show ?thesis by blast
qed

text \<open>
  C3 as stated fails on the specification's own example: the planner returns
  normally, with an empty list, where the claim asks for an error.
\<close>

theorem reversed_range_is_not_an_error:
  "parse_date_range ''2025-08-22'' (Some ''2025-08-20'') = Inr []"
  by (rule parse_date_range_reversed_example)

subsection \<open>Start without end\<close>

text \<open>
  C8. For every start string that \<open>strptime\<close> accepts, supplied without an end date,
  the planner returns the one-element list holding that start date; and every
  calendar date, written as \<open>YYYY-MM-DD\<close>, is such a string and is returned as it is.
\<close>

theorem planner_start_only_single:
  "(strptime start_date = Inr start \<longrightarrow> parse_date_range start_date None = Inr [strftime start])
   \<and> (valid_date start \<longrightarrow> parse_date_range (strftime start) None = Inr [strftime start])"
  by (simp add: parse_date_range_def strptime_strftime)

theorem planner_start_only_single_witness:
  "strptime ''2025-08-20'' = Inr \<lparr> year = 2025, month = 8, day = 20 \<rparr>
   \<and> valid_date \<lparr> year = 2025, month = 8, day = 20 \<rparr>
   \<and> strftime \<lparr> year = 2025, month = 8, day = 20 \<rparr> = ''2025-08-20''
   \<and> parse_date_range ''2025-08-20'' None = Inr [''2025-08-20'']"
proof -
  have s: "strptime ''2025-08-20'' = Inr \<lparr> year = 2025, month = 8, day = 20 \<rparr>"
    by (simp add: strptime_def is_digit_def digit_val_def valid_date_def days_in_month_def)
  have v: "valid_date \<lparr> year = 2025, month = 8, day = 20 \<rparr>"
    by (simp add: valid_date_def days_in_month_def)
  have f: "strftime \<lparr> year = 2025, month = 8, day = 20 \<rparr> = ''2025-08-20''"
    by (simp add: strftime_def digit_char_def)
  from planner_start_only_single[of "''2025-08-20''" "\<lparr> year = 2025, month = 8, day = 20 \<rparr>"] s v f
  show ?thesis by simp
qed

section \<open>Properties of the driver\<close>

lemma attempted_dates_append:
  "attempted_dates (xs @ ys) = attempted_dates xs @ attempted_dates ys"
  by (induction xs rule: attempted_dates.induct) simp_all

lemma attempted_dates_report: "attempted_dates [report d e] = []"
  by (simp add: report_def)

lemma sync_date_success:
  "(fst (sync_date env ok pk ph d out) = Inr ()) = all_steps_succeed env ok pk ph d"
  by (simp add: sync_date_def all_steps_succeed_def Let_def split: sum.splits)

lemma sync_date_failure:
  "(\<exists>e. fst (sync_date env ok pk ph d out) = Inl e) = (\<not> all_steps_succeed env ok pk ph d)"
  by (simp add: sync_date_def all_steps_succeed_def Let_def split: sum.splits)

lemma sync_date_attempted:
  "attempted_dates (snd (sync_date env ok pk ph d out)) = attempted_dates out @ [d]"
  by (simp add: sync_date_def Let_def attempted_dates_append attempted_dates_report
      split: sum.splits)

lemma sync_dates_count:
  "fst (sync_dates env ok pk ph dates n out)
     = n + length (filter (all_steps_succeed env ok pk ph) dates)"
proof (induction dates arbitrary: n out)
  case Nil
  show ?case by simp
next
  case (Cons d rest)
  obtain r out' where r: "sync_date env ok pk ph d out = (r, out')"
    by (cases "sync_date env ok pk ph d out")
  show ?case
  proof (cases r)
    case (Inl e)
    with r have "\<not> all_steps_succeed env ok pk ph d"
      using sync_date_failure[of env ok pk ph d out] by auto
    with r Inl Cons.IH show ?thesis by simp
  next
    case (Inr u)
    with r have "all_steps_succeed env ok pk ph d"
      using sync_date_success[of env ok pk ph d out] by simp
    with r Inr Cons.IH show ?thesis by simp
  qed
qed

lemma sync_dates_attempted:
  "attempted_dates (snd (sync_dates env ok pk ph dates n out)) = attempted_dates out @ dates"
proof (induction dates arbitrary: n out)
  case Nil
  show ?case by simp
next
  case (Cons d rest)
  obtain r out' where r: "sync_date env ok pk ph d out = (r, out')"
    by (cases "sync_date env ok pk ph d out")
  then have a: "attempted_dates out' = attempted_dates out @ [d]"
    using sync_date_attempted[of env ok pk ph d out] by simp
  show ?case
  proof (cases r)
    case (Inl e)
    with r a Cons.IH show ?thesis by (simp add: attempted_dates_append)
  next
    case (Inr u)
    with r a Cons.IH show ?thesis by simp
  qed
qed

text \<open>
  C4. The loop attempts every planned date, in order, whatever happened on the dates
  before it, and its count grows by exactly the number of dates whose three steps all
  succeed. When the credentials are present and the dates are planned, \<open>main\<close> ends
  normally and its last line reports that count out of the number of dates.
\<close>

theorem driver_isolates_failures_and_counts:
  "fst (sync_dates env ok pk ph dates n out)
     = n + length (filter (all_steps_succeed env ok pk ph) dates)
   \<and> attempted_dates (snd (sync_dates env ok pk ph dates n out)) = attempted_dates out @ dates
   \<and> (OPENROUTER_API_KEY vars = Some ok \<and> ok \<noteq> [] \<and> POSTHOG_API_KEY vars = Some pk \<and> pk \<noteq> []
        \<and> POSTHOG_HOST vars = Some ph \<and> ph \<noteq> [] \<and> plan_dates env a = Inr (dates, header)
      \<longrightarrow> (\<exists>printed. main env vars a =
                (Exit 0, printed @ [Summary (length (filter (all_steps_succeed env ok pk ph) dates))
                                           (length dates)])
             \<and> attempted_dates printed = dates))"
proof (intro conjI impI)
  show "fst (sync_dates env ok pk ph dates n out)
     = n + length (filter (all_steps_succeed env ok pk ph) dates)"
    by (rule sync_dates_count)
  show "attempted_dates (snd (sync_dates env ok pk ph dates n out)) = attempted_dates out @ dates"
    by (rule sync_dates_attempted)
next
  assume h: "OPENROUTER_API_KEY vars = Some ok \<and> ok \<noteq> [] \<and> POSTHOG_API_KEY vars = Some pk \<and> pk \<noteq> []
        \<and> POSTHOG_HOST vars = Some ph \<and> ph \<noteq> [] \<and> plan_dates env a = Inr (dates, header)"
  obtain c printed where run: "sync_dates env ok pk ph dates 0 [header] = (c, printed)"
    by (cases "sync_dates env ok pk ph dates 0 [header]")
  have c: "c = length (filter (all_steps_succeed env ok pk ph) dates)"
    using sync_dates_count[of env ok pk ph dates 0 "[header]"] run by simp
  have hd: "attempted_dates [header] = []"
    using h by (auto simp: plan_dates_def split: if_splits sum.splits list.splits)
  have p: "attempted_dates printed = dates"
    using sync_dates_attempted[of env ok pk ph dates 0 "[header]"] run hd by simp
  have "main env vars a = (Exit 0, printed @ [Summary c (length dates)])"
    using h run by (simp add: main_def truthy_def get_default_def)
  with c p show "\<exists>printed. main env vars a =
                (Exit 0, printed @ [Summary (length (filter (all_steps_succeed env ok pk ph) dates))
                                           (length dates)])
             \<and> attempted_dates printed = dates"
    by blast
qed

theorem driver_isolates_failures_and_counts_witness:
  "OPENROUTER_API_KEY \<lparr> OPENROUTER_API_KEY = Some ''or-key'', POSTHOG_API_KEY = Some ''ph-key'',
                         POSTHOG_HOST = Some ''https://ph.example'' \<rparr> = Some ''or-key''
   \<and> plan_dates simulated_env
         \<lparr> arg_date = None, arg_start_date = Some ''2025-08-20'', arg_end_date = Some ''2025-08-22'' \<rparr>
       = Inr ([''2025-08-20'', ''2025-08-21'', ''2025-08-22''],
              SyncingRange ''2025-08-20'' ''2025-08-22'' 3)
   \<and> filter (all_steps_succeed simulated_env ''or-key'' ''ph-key'' ''https://ph.example'')
         [''2025-08-20'', ''2025-08-21'', ''2025-08-22''] = [''2025-08-20'', ''2025-08-22'']
   \<and> main simulated_env
         \<lparr> OPENROUTER_API_KEY = Some ''or-key'', POSTHOG_API_KEY = Some ''ph-key'',
           POSTHOG_HOST = Some ''https://ph.example'' \<rparr>
         \<lparr> arg_date = None, arg_start_date = Some ''2025-08-20'', arg_end_date = Some ''2025-08-22'' \<rparr>
       = (Exit 0,
          [SyncingRange ''2025-08-20'' ''2025-08-22'' 3,
           Fetching ''2025-08-20'', Found 1, Processed 3.5 1, Sent,
           Fetching ''2025-08-21'', Found 1, Processed 3.5 1,
           ErrorFor ''2025-08-21'' ApiError, Skipping ''2025-08-21'',
           Fetching ''2025-08-22'', Found 1, Processed 3.5 1, Sent,
           Summary 2 3])"
proof -
  let ?vars = "\<lparr> OPENROUTER_API_KEY = Some ''or-key'', POSTHOG_API_KEY = Some ''ph-key'',
                 POSTHOG_HOST = Some ''https://ph.example'' \<rparr>"
  let ?args = "\<lparr> arg_date = None, arg_start_date = Some ''2025-08-20'',
                 arg_end_date = Some ''2025-08-22'' \<rparr>"
  let ?dates = "[''2025-08-20'', ''2025-08-21'', ''2025-08-22'']"
  have plan: "plan_dates simulated_env ?args = Inr (?dates, SyncingRange ''2025-08-20'' ''2025-08-22'' 3)"
    by (simp add: plan_dates_def truthy_def get_default_def parse_date_range_example)
  have ok: "filter (all_steps_succeed simulated_env ''or-key'' ''ph-key'' ''https://ph.example'') ?dates
              = [''2025-08-20'', ''2025-08-22'']"
    by (simp add: all_steps_succeed_def simulated_env_def fetch_openrouter_activity_def
        send_to_posthog_def posthog_payload_def transform_activity_data_def to_model_def
        subscript_def get_default_def sort_reverse_def float_add_def round_double_half_numeral)
  from driver_isolates_failures_and_counts[of simulated_env "''or-key''" "''ph-key''"
      "''https://ph.example''" ?dates 0 "[]" ?vars ?args "SyncingRange ''2025-08-20'' ''2025-08-22'' 3"]
    plan ok
  obtain printed where m: "main simulated_env ?vars ?args = (Exit 0, printed @ [Summary 2 3])"
    by auto
  have loop: "sync_dates simulated_env ''or-key'' ''ph-key'' ''https://ph.example'' ?dates 0
                 [SyncingRange ''2025-08-20'' ''2025-08-22'' 3]
       = (2, [SyncingRange ''2025-08-20'' ''2025-08-22'' 3,
           Fetching ''2025-08-20'', Found 1, Processed 3.5 1, Sent,
           Fetching ''2025-08-21'', Found 1, Processed 3.5 1,
           ErrorFor ''2025-08-21'' ApiError, Skipping ''2025-08-21'',
           Fetching ''2025-08-22'', Found 1, Processed 3.5 1, Sent])"
    by (simp add: sync_date_def report_def simulated_env_def fetch_openrouter_activity_def
        send_to_posthog_def posthog_payload_def transform_activity_data_def to_model_def
        subscript_def get_default_def sort_reverse_def float_add_def round_double_half_numeral)
  have run: "main simulated_env ?vars ?args
       = (Exit 0,
          [SyncingRange ''2025-08-20'' ''2025-08-22'' 3,
           Fetching ''2025-08-20'', Found 1, Processed 3.5 1, Sent,
           Fetching ''2025-08-21'', Found 1, Processed 3.5 1,
           ErrorFor ''2025-08-21'' ApiError, Skipping ''2025-08-21'',
           Fetching ''2025-08-22'', Found 1, Processed 3.5 1, Sent,
           Summary 2 3])"
    by (simp add: main_def plan loop truthy_def get_default_def del: sync_dates.simps)
  from m plan ok run show ?thesis by simp
qed


text \<open>
  With an end before the start the planner's empty list reaches the header line of
  \<open>main\<close>, whose \<open>dates[0]\<close> raises: the run ends with an uncaught \<open>IndexError\<close>
  before any date is processed.
\<close>

lemma main_reversed_range_uncaught:
  "main env \<lparr> OPENROUTER_API_KEY = Some ''a'', POSTHOG_API_KEY = Some ''b'', POSTHOG_HOST = Some ''c'' \<rparr>
        \<lparr> arg_date = None, arg_start_date = Some ''2025-08-22'', arg_end_date = Some ''2025-08-20'' \<rparr>
     = (Uncaught IndexError, [])"
  by (simp add: main_def plan_dates_def truthy_def get_default_def parse_date_range_reversed_example)

end
